theory Spec2Isabelle
  imports Main "HOL-Library.Multiset"
begin

section \<open>Organization roles (organization-role.ts)\<close>

text \<open>
  The enum \<open>OrganizationRole\<close> has four members whose string values (\<open>'guest'\<close>,
  \<open>'user'\<close>, \<open>'admin'\<close>, \<open>'superAdmin'\<close>) are all non-empty, hence truthy.
  A parameter of type \<open>OrganizationRole | null | undefined\<close> is a \<open>nullable\<close> role.
\<close>

datatype OrganizationRole = GUEST | USER | ADMIN | SUPER_ADMIN

datatype 'a nullable = Null | Undefined | Defined 'a

fun role_value :: "OrganizationRole \<Rightarrow> string" where
  "role_value GUEST = ''guest''"
| "role_value USER = ''user''"
| "role_value ADMIN = ''admin''"
| "role_value SUPER_ADMIN = ''superAdmin''"

fun ORGANIZATION_ROLE_ORDER :: "OrganizationRole \<Rightarrow> int" where
  "ORGANIZATION_ROLE_ORDER GUEST = 0"
| "ORGANIZATION_ROLE_ORDER USER = 1"
| "ORGANIZATION_ROLE_ORDER ADMIN = 2"
| "ORGANIZATION_ROLE_ORDER SUPER_ADMIN = 3"

definition isRoleAtLeast :: "OrganizationRole nullable \<Rightarrow> OrganizationRole nullable \<Rightarrow> bool" where
  "isRoleAtLeast role wantRole =
     (let haveRoleIdx = (case role of Defined r \<Rightarrow> ORGANIZATION_ROLE_ORDER r | _ \<Rightarrow> - 1);
          wantRoleIdx = (case wantRole of Defined w \<Rightarrow> ORGANIZATION_ROLE_ORDER w | _ \<Rightarrow> 99)
      in haveRoleIdx \<ge> wantRoleIdx)"

definition isRoleAtMost :: "OrganizationRole nullable \<Rightarrow> OrganizationRole nullable \<Rightarrow> bool" where
  "isRoleAtMost role atMostRole = isRoleAtLeast atMostRole role"


section \<open>Documents: users, members, organization accounts\<close>

text \<open>
  Only the fields read by the functions below are kept. An \<open>ObjectId\<close> is identified
  with its hexadecimal string; \<open>a.equals(b)\<close> between two ObjectIds is equality of ids.
\<close>

datatype ObjectId = ObjectId string

text \<open>
  Modelled from the spec: the declaration of the enum \<open>UserRoles\<close> (file \<open>user-roles\<close>) is
  not among the sources. The sources use exactly the members \<open>UserRoles.USER\<close> and
  \<open>UserRoles.ADMIN\<close>, the latter being the site admin role; any further member is
  \<open>UserRoles_OTHER\<close>.
\<close>

datatype UserRoles = UserRoles_USER | UserRoles_ADMIN | UserRoles_OTHER string

record UserDocument =
  user_id :: ObjectId
  user_name :: string
  user_email :: string
  user_role :: UserRoles

record AuthenticatedUser =
  userDoc :: UserDocument

datatype error =
    BadRequestException string
  | ForbiddenException string
  | InternalServerErrorException string
  | UnprocessableEntityException string
  | TypeError

text \<open>
  \<open>Member.user\<close> has type \<open>Types.ObjectId | UserDocument\<close>: a bare id, or the whole
  document when the query populated it. Mongoose gives an ObjectId the getter \<open>_id\<close>
  returning itself, and a bare id has no \<open>email\<close>. At run time there is a third case:
  \<open>populate('members.user')\<close> puts \<open>null\<close> where the user document no longer exists
  (\<open>deleteUser\<close> removes the user and leaves the memberships). Reading \<open>_id\<close> or \<open>email\<close>
  of \<open>null\<close> is a \<open>TypeError\<close>.
\<close>

datatype MemberUser = UserRef ObjectId | UserPopulated UserDocument | UserNull

fun member_user_id :: "MemberUser \<Rightarrow> error + ObjectId" where
  "member_user_id (UserRef i) = Inr i"
| "member_user_id (UserPopulated u) = Inr (user_id u)"
| "member_user_id UserNull = Inl TypeError"

fun member_user_email :: "MemberUser \<Rightarrow> error + string option" where
  "member_user_email (UserRef i) = Inr None"
| "member_user_email (UserPopulated u) = Inr (Some (user_email u))"
| "member_user_email UserNull = Inl TypeError"

record Member =
  member_user :: MemberUser
  member_role :: OrganizationRole

definition hasUser :: "Member \<Rightarrow> bool" where
  "hasUser m = (case member_user m of UserNull \<Rightarrow> False | _ \<Rightarrow> True)"

record OrganizationAccount =
  org_name :: string
  members :: "Member list option"

text \<open>
  \<open>Array.prototype.find\<close> calls the predicate on the elements in order and stops at the
  first one for which it is true; an exception of the predicate ends the search.
\<close>

fun Array_find :: "('a \<Rightarrow> error + bool) \<Rightarrow> 'a list \<Rightarrow> error + 'a option" where
  "Array_find p [] = Inr None"
| "Array_find p (x # xs) =
     (case p x of
        Inl e \<Rightarrow> Inl e
      | Inr True \<Rightarrow> Inr (Some x)
      | Inr False \<Rightarrow> Array_find p xs)"

definition user_id_equals :: "ObjectId \<Rightarrow> Member \<Rightarrow> error + bool" where
  "user_id_equals uid m =
     (case member_user_id (member_user m) of Inl e \<Rightarrow> Inl e | Inr i \<Rightarrow> Inr (i = uid))"

definition user_email_is :: "string \<Rightarrow> Member \<Rightarrow> error + bool" where
  "user_email_is email currentMember =
     (case member_user_email (member_user currentMember) of
        Inl e \<Rightarrow> Inl e
      | Inr found \<Rightarrow> Inr (found = Some email))"


section \<open>OrgValidator.checkMember (org-validator.ts)\<close>

record OrgValidator =
  org :: OrganizationAccount

fun show_role :: "OrganizationRole nullable \<Rightarrow> string" where
  "show_role Null = ''null''"
| "show_role Undefined = ''undefined''"
| "show_role (Defined r) = role_value r"

definition find_membership :: "OrganizationAccount \<Rightarrow> ObjectId \<Rightarrow> error + Member option" where
  "find_membership organization uid =
     (case members organization of
        None \<Rightarrow> Inr None
      | Some ms \<Rightarrow> Array_find (user_id_equals uid) ms)"

definition optional_role :: "Member option \<Rightarrow> OrganizationRole nullable" where
  "optional_role membership = (case membership of None \<Rightarrow> Undefined | Some m \<Rightarrow> Defined (member_role m))"

definition checkMember :: "OrgValidator \<Rightarrow> AuthenticatedUser \<Rightarrow> OrganizationRole \<Rightarrow> error + OrgValidator" where
  "checkMember this user minRole =
     (case find_membership (org this) (user_id (userDoc user)) of
        Inl e \<Rightarrow> Inl e
      | Inr membership \<Rightarrow>
          if \<not> isRoleAtLeast (optional_role membership) (Defined minRole)
          then Inl (ForbiddenException (''User must be at least '' @ role_value minRole @ '' in the organization.''))
          else Inr this)"


section \<open>UserService.inviteUserToOrganization\<close>

text \<open>
  \<open>userData\<close> is the request body; its declared type is
  \<open>{name: string; email: string; locale: string; role: OrganizationRole}\<close>.
  The body is not validated before the call, so the guard on \<open>role\<close> is kept: the field
  is nullable here. Everything after the membership test (looking the user up, creating it, pushing
  the member, saving the organization) talks to the database and to Auth0; it is the
  parameter \<open>persist\<close>, which may fail with any error. \<open>organization.members\<close> is read
  without \<open>?.\<close> here, so an organization without the field is a \<open>TypeError\<close>. The search
  for the inviter's membership runs only when the inviter is not a site admin; the test
  for an existing member (\<open>addMember\<close> below, with what follows it) runs in both cases.
\<close>

record InviteData =
  invite_name :: string
  invite_email :: string
  invite_locale :: string
  invite_role :: "OrganizationRole nullable"

definition specify_msg :: string where
  "specify_msg = ''Properties '' @ [CHR 0x22] @ ''name'' @ [CHR 0x22] @ '', '' @ [CHR 0x22] @ ''email''
      @ [CHR 0x22] @ '' and '' @ [CHR 0x22] @ ''role'' @ [CHR 0x22] @ '' must be specified''"

definition escalation_msg :: "OrganizationRole nullable \<Rightarrow> OrganizationRole nullable \<Rightarrow> string" where
  "escalation_msg inviterRoleInOrg role =
     ''A user can only invite another use to the organization with the same or lower role. The requester had role ''
       @ show_role inviterRoleInOrg @ '' and invited the new user to have role '' @ show_role role @ ''.''"

definition falsy_role :: "OrganizationRole nullable \<Rightarrow> bool" where
  "falsy_role role = (case role of Defined r \<Rightarrow> False | _ \<Rightarrow> True)"

definition inviterRole :: "Member list \<Rightarrow> UserDocument \<Rightarrow> error + OrganizationRole nullable" where
  "inviterRole ms invitedByUser =
     (case Array_find (user_id_equals (user_id invitedByUser)) ms of
        Inl e \<Rightarrow> Inl e
      | Inr membership \<Rightarrow> Inr (optional_role membership))"

definition isMember :: "Member list \<Rightarrow> string \<Rightarrow> error + Member option" where
  "isMember ms email = Array_find (user_email_is email) ms"

definition addMember ::
  "(InviteData \<Rightarrow> OrganizationAccount \<Rightarrow> error + 'r) \<Rightarrow>
   InviteData \<Rightarrow> OrganizationAccount \<Rightarrow> Member list \<Rightarrow> error + 'r" where
  "addMember persist userData organization ms =
     (case isMember ms (invite_email userData) of
        Inl e \<Rightarrow> Inl e
      | Inr (Some currentMember) \<Rightarrow>
          Inl (BadRequestException ''User with specified email is already organization member'')
      | Inr None \<Rightarrow> persist userData organization)"

definition inviteUserToOrganization ::
  "(InviteData \<Rightarrow> OrganizationAccount \<Rightarrow> error + 'r) \<Rightarrow>
   InviteData \<Rightarrow> OrganizationAccount \<Rightarrow> UserDocument \<Rightarrow> error + 'r" where
  "inviteUserToOrganization persist userData organization invitedByUser =
     (if invite_name userData = [] \<or> invite_email userData = [] \<or> falsy_role (invite_role userData)
      then Inl (BadRequestException specify_msg)
      else (case members organization of
        None \<Rightarrow> Inl TypeError
      | Some ms \<Rightarrow>
          if user_role invitedByUser \<noteq> UserRoles_ADMIN
          then (case inviterRole ms invitedByUser of
                  Inl e \<Rightarrow> Inl e
                | Inr inviterRoleInOrg \<Rightarrow>
                    if \<not> isRoleAtMost (invite_role userData) inviterRoleInOrg
                    then Inl (ForbiddenException
                           (escalation_msg inviterRoleInOrg (invite_role userData)))
                    else addMember persist userData organization ms)
          else addMember persist userData organization ms))"


section \<open>isObjectIdsEquals (shared/utils.ts)\<close>

text \<open>
  The arguments have type \<open>null | undefined | string | Types.ObjectId\<close>; \<open>IdMalformed\<close>
  stands for a truthy value that is not a string and has no \<open>equals\<close> property.
  Reading a property of \<open>null\<close> or \<open>undefined\<close> and calling a method that a value does
  not have are \<open>TypeError\<close>s. The method \<open>ObjectId.equals\<close> belongs to the bson library,
  not to this repository: it is the parameter \<open>equals\<close>, a function that returns a
  boolean for every argument.
\<close>

datatype IdValue = IdNull | IdUndefined | IdString string | IdObject ObjectId | IdMalformed

fun falsy :: "IdValue \<Rightarrow> bool" where
  "falsy IdNull = True"
| "falsy IdUndefined = True"
| "falsy (IdString s) = (s = [])"
| "falsy (IdObject i) = False"
| "falsy IdMalformed = False"

fun is_string :: "IdValue \<Rightarrow> bool" where
  "is_string (IdString s) = True"
| "is_string v = False"

fun get_equals :: "IdValue \<Rightarrow> error + bool" where
  "get_equals IdNull = Inl TypeError"
| "get_equals IdUndefined = Inl TypeError"
| "get_equals (IdString s) = Inr False"
| "get_equals (IdObject i) = Inr True"
| "get_equals IdMalformed = Inr False"

fun call_equals :: "(ObjectId \<Rightarrow> IdValue \<Rightarrow> bool) \<Rightarrow> IdValue \<Rightarrow> IdValue \<Rightarrow> error + bool" where
  "call_equals equals (IdObject i) arg = Inr (equals i arg)"
| "call_equals equals v arg = Inl TypeError"

definition unusable :: "IdValue \<Rightarrow> error + bool" where
  "unusable v =
     (if falsy v then Inr True
      else if \<not> is_string v
           then (case get_equals v of Inl e \<Rightarrow> Inl e | Inr has \<Rightarrow> Inr (\<not> has))
           else Inr False)"

definition isObjectIdsEquals ::
  "(ObjectId \<Rightarrow> IdValue \<Rightarrow> bool) \<Rightarrow> IdValue \<Rightarrow> IdValue \<Rightarrow> error + bool" where
  "isObjectIdsEquals equals v other =
     (case unusable v of
        Inl e \<Rightarrow> Inl e
      | Inr True \<Rightarrow> Inr False
      | Inr False \<Rightarrow>
          (case unusable other of
             Inl e \<Rightarrow> Inl e
           | Inr True \<Rightarrow> Inr False
           | Inr False \<Rightarrow>
               (case v of
                  IdString s \<Rightarrow>
                    (case other of
                       IdString t \<Rightarrow> Inr (s = t)
                     | _ \<Rightarrow> call_equals equals other v)
                | _ \<Rightarrow> call_equals equals v other)))"


section \<open>CalculatedImpactService (calculatedImpact.service.ts)\<close>

subsection \<open>isCalculationCompleteForDataSources\<close>

text \<open>
  \<open>getDataSource\<close> is the HTTP lookup of normative-server; \<open>None\<close> is a rejected promise.
  \<open>Promise.all\<close> rejects as soon as one lookup rejects, and which rejection it reports
  depends on timing, so a rejection carries no payload here.
\<close>

record IDataSource =
  ds_id :: "string option"
  ds_status :: string

fun Promise_all :: "'a option list \<Rightarrow> 'a list option" where
  "Promise_all [] = Some []"
| "Promise_all (None # ps) = None"
| "Promise_all (Some x # ps) = (case Promise_all ps of None \<Rightarrow> None | Some xs \<Rightarrow> Some (x # xs))"

definition isCalculationCompleteForDataSources ::
  "(string \<Rightarrow> ObjectId \<Rightarrow> IDataSource option) \<Rightarrow> string \<Rightarrow> ObjectId list \<Rightarrow> bool option" where
  "isCalculationCompleteForDataSources getDataSource authToken dataSourceIds =
     (let dataSourceGets = map (\<lambda>i. getDataSource authToken i) dataSourceIds
      in case Promise_all dataSourceGets of
           None \<Rightarrow> None
         | Some dataSources \<Rightarrow>
             Some (list_all (\<lambda>dataSource.
                     ds_status dataSource = ''succeeded'' \<or> ds_status dataSource = ''failed'')
                   dataSources))"


subsection \<open>Numbers\<close>

text \<open>
  The aggregation adds JavaScript numbers with \<open>+\<close>, starting from \<open>0\<close>. It is written
  here for any type with these two operations, so that a statement proved for all such
  types holds for doubles, and a statement that needs laws of addition says which.

  \<open>jsnum\<close> is the part of the IEEE 754 doubles that is closed under addition without
  fractions: the integers that a double represents (\<open>Num\<close>; the two zeros are one
  value), the infinities and NaN. The exact sum of two such integers is rounded to 53
  significant bits, to nearest, ties to even; a rounded magnitude of \<open>2 ^ 1024\<close> or more
  is infinite.
\<close>

fun bit_length :: "nat \<Rightarrow> nat" where
  "bit_length n = (if n = 0 then 0 else Suc (bit_length (n div 2)))"

declare bit_length.simps [simp del]

definition round_magnitude :: "nat \<Rightarrow> nat" where
  "round_magnitude m =
     (if bit_length m \<le> 53 then m
      else let shift = bit_length m - 53;
               q = m div 2 ^ shift;
               r = m mod 2 ^ shift;
               half = 2 ^ (shift - 1)
           in (if r > half \<or> (r = half \<and> odd q) then q + 1 else q) * 2 ^ shift)"

datatype jsnum = Num int | PosInfinity | NegInfinity | NaN

definition to_double :: "int \<Rightarrow> jsnum" where
  "to_double s =
     (let m = round_magnitude (nat \<bar>s\<bar>)
      in if m \<ge> 2 ^ 1024 then (if s < 0 then NegInfinity else PosInfinity)
         else Num (if s < 0 then - int m else int m))"

instantiation jsnum :: "{plus,zero}"
begin

definition zero_jsnum :: jsnum where
  "zero_jsnum = Num 0"

fun plus_jsnum :: "jsnum \<Rightarrow> jsnum \<Rightarrow> jsnum" where
  "plus_jsnum (Num a) (Num b) = to_double (a + b)"
| "plus_jsnum NaN y = NaN"
| "plus_jsnum x NaN = NaN"
| "plus_jsnum PosInfinity NegInfinity = NaN"
| "plus_jsnum NegInfinity PosInfinity = NaN"
| "plus_jsnum PosInfinity y = PosInfinity"
| "plus_jsnum NegInfinity y = NegInfinity"
| "plus_jsnum (Num a) y = y"

instance ..

end


subsection \<open>Grouping\<close>

text \<open>
  \<open>_.groupBy\<close> (lodash) fills a fresh object: for each element in order, the array
  under the element's key gets the element pushed, and a key seen for the first time is
  created. The object is the list of its properties in creation order.
  \<open>Object.entries\<close> enumerates the keys that are array indices (canonical decimal
  numerals below \<open>2^32 - 1\<close>) first, in ascending numeric order, then all other keys in
  creation order.
\<close>

fun group_push :: "(string \<times> 'a list) list \<Rightarrow> string \<Rightarrow> 'a \<Rightarrow> (string \<times> 'a list) list" where
  "group_push [] key v = [(key, [v])]"
| "group_push ((k, vs) # rest) key v =
     (if k = key then (k, vs @ [v]) # rest else (k, vs) # group_push rest key v)"

definition groupBy :: "'a list \<Rightarrow> ('a \<Rightarrow> string) \<Rightarrow> (string \<times> 'a list) list" where
  "groupBy collection iteratee = foldl (\<lambda>result v. group_push result (iteratee v) v) [] collection"

definition is_digit :: "char \<Rightarrow> bool" where
  "is_digit c = (48 \<le> (of_char c :: nat) \<and> (of_char c :: nat) \<le> 57)"

definition index_value :: "string \<Rightarrow> nat" where
  "index_value s = foldl (\<lambda>n c. 10 * n + (of_char c - 48)) 0 s"

definition is_array_index :: "string \<Rightarrow> bool" where
  "is_array_index s =
     (s \<noteq> [] \<and> list_all is_digit s \<and> (s = ''0'' \<or> hd s \<noteq> CHR ''0'')
      \<and> index_value s < 2 ^ 32 - 1)"

definition Object_entries :: "(string \<times> 'v) list \<Rightarrow> (string \<times> 'v) list" where
  "Object_entries obj =
     sort_key (\<lambda>e. index_value (fst e)) (filter (\<lambda>e. is_array_index (fst e)) obj)
       @ filter (\<lambda>e. \<not> is_array_index (fst e)) obj"


subsection \<open>Aggregation\<close>

text \<open>
  Of a \<open>CalculatedImpact\<close> document the aggregation reads \<open>activity?.ghgScope\<close>,
  \<open>activity?.category\<close> and \<open>impacts?.value\<close>, each with a \<open>??\<close> default; \<open>None\<close> is a
  field that is null or undefined.
\<close>

record Activity =
  activity_category :: "string option"
  ghgScope :: "string option"

record 'n Impact =
  impact_value :: "'n option"

record 'n CalculatedImpact =
  activity :: "Activity option"
  impacts :: "'n Impact option"

record 'n EmissionValue =
  emission_value :: 'n
  emission_unit :: string

record 'n EmissionsByCategory =
  category :: string
  category_emission :: "'n EmissionValue"

record 'n EmissionsByScope =
  scope :: string
  scope_emission :: "'n EmissionValue"
  categoryBreakdown :: "'n EmissionsByCategory list"

record 'n EmissionCalculation =
  totalEmissions :: "'n EmissionValue"
  emissionsByScope :: "'n EmissionsByScope list"

definition CO2KGS :: string where
  "CO2KGS = ''co2 kg''"

definition impactValue :: "('n::{plus,zero}) CalculatedImpact \<Rightarrow> 'n" where
  "impactValue i =
     (case impacts i of
        None \<Rightarrow> 0
      | Some im \<Rightarrow> (case impact_value im of None \<Rightarrow> 0 | Some v \<Rightarrow> v))"

definition categoryKey :: "'n CalculatedImpact \<Rightarrow> string" where
  "categoryKey x =
     (case activity x of
        None \<Rightarrow> ''unknown''
      | Some a \<Rightarrow> (case activity_category a of None \<Rightarrow> ''unknown'' | Some c \<Rightarrow> c))"

definition scopeKey :: "'n CalculatedImpact \<Rightarrow> string" where
  "scopeKey x =
     (case activity x of
        None \<Rightarrow> ''unknown''
      | Some a \<Rightarrow> (case ghgScope a of None \<Rightarrow> ''unknown'' | Some s \<Rightarrow> s))"

definition sumEmissions :: "('n::{plus,zero}) CalculatedImpact list \<Rightarrow> 'n" where
  "sumEmissions imps = foldl (\<lambda>a b. a + b) 0 (map impactValue imps)"

definition getEmissionsByCategory ::
  "('n::{plus,zero}) CalculatedImpact list \<Rightarrow> 'n EmissionsByCategory list" where
  "getEmissionsByCategory imps =
     map (\<lambda>(cat, impactsForCategory).
            \<lparr>category = cat,
             category_emission =
               \<lparr>emission_value = sumEmissions impactsForCategory, emission_unit = CO2KGS\<rparr>\<rparr>)
         (Object_entries (groupBy imps categoryKey))"

definition aggregateImpacts ::
  "('n::{plus,zero}) CalculatedImpact list \<Rightarrow> 'n EmissionCalculation" where
  "aggregateImpacts calculatedImpacts =
     (let calculatedImpactsByScope = groupBy calculatedImpacts scopeKey;
          emissionsByScope' =
            map (\<lambda>(sc, impactsForScope).
                   \<lparr>scope = sc,
                    scope_emission =
                      \<lparr>emission_value = sumEmissions impactsForScope, emission_unit = CO2KGS\<rparr>,
                    categoryBreakdown = getEmissionsByCategory impactsForScope\<rparr>)
                (Object_entries calculatedImpactsByScope)
      in \<lparr>totalEmissions =
            \<lparr>emission_value =
               foldl (\<lambda>a b. a + b) 0 (map (\<lambda>e. emission_value (scope_emission e)) emissionsByScope'),
             emission_unit = CO2KGS\<rparr>,
          emissionsByScope = emissionsByScope'\<rparr>)"


subsection \<open>Sums read off a summary\<close>

definition scopeValue :: "'n EmissionsByScope \<Rightarrow> 'n" where
  "scopeValue e = emission_value (scope_emission e)"

definition categoryValue :: "'n EmissionsByCategory \<Rightarrow> 'n" where
  "categoryValue c = emission_value (category_emission c)"

definition totalValue :: "'n EmissionCalculation \<Rightarrow> 'n" where
  "totalValue summary = emission_value (totalEmissions summary)"

definition reduceSum :: "('n::{plus,zero}) list \<Rightarrow> 'n" where
  "reduceSum xs = foldl (\<lambda>a b. a + b) 0 xs"

definition categorySum :: "('n::{plus,zero}) EmissionsByScope \<Rightarrow> 'n" where
  "categorySum e = reduceSum (map categoryValue (categoryBreakdown e))"



subsection \<open>Inputs whose sums are not rounded\<close>

text \<open>
  Every integer of magnitude at most \<open>2^53\<close> is a double. When the values of a list are
  such integers and their magnitudes add up to at most \<open>2^53\<close>, no sum of some of them
  is rounded.
\<close>

fun integral :: "jsnum \<Rightarrow> bool" where
  "integral (Num v) = True"
| "integral x = False"

fun integer_of :: "jsnum \<Rightarrow> int" where
  "integer_of (Num v) = v"
| "integer_of x = 0"

definition unrounded :: "jsnum CalculatedImpact list \<Rightarrow> bool" where
  "unrounded rs =
     (list_all (\<lambda>r. integral (impactValue r)) rs
      \<and> sum_list (map (\<lambda>r. \<bar>integer_of (impactValue r)\<bar>) rs) \<le> 2 ^ 53)"


section \<open>Example data\<close>

definition alice :: UserDocument where
  "alice = \<lparr>user_id = ObjectId ''a1'', user_name = ''Alice'', user_email = ''alice@example.com'',
            user_role = UserRoles_USER\<rparr>"

definition bob :: UserDocument where
  "bob = \<lparr>user_id = ObjectId ''b2'', user_name = ''Bob'', user_email = ''bob@example.com'',
          user_role = UserRoles_USER\<rparr>"

definition root :: UserDocument where
  "root = \<lparr>user_id = ObjectId ''c3'', user_name = ''Root'', user_email = ''root@example.com'',
           user_role = UserRoles_ADMIN\<rparr>"

definition acme :: OrganizationAccount where
  "acme = \<lparr>org_name = ''Acme'',
           members = Some [\<lparr>member_user = UserPopulated alice, member_role = USER\<rparr>,
                           \<lparr>member_user = UserRef (ObjectId ''d4''), member_role = ADMIN\<rparr>]\<rparr>"


definition invitation :: "string \<Rightarrow> OrganizationRole \<Rightarrow> InviteData" where
  "invitation n r = \<lparr>invite_name = n, invite_email = ''carol@example.com'', invite_locale = ''en'',
                      invite_role = Defined r\<rparr>"

definition saved :: "InviteData \<Rightarrow> OrganizationAccount \<Rightarrow> error + InviteData" where
  "saved userData organization = Inr userData"

definition statusOf :: "string \<Rightarrow> ObjectId \<Rightarrow> IDataSource option" where
  "statusOf authToken i =
     (if i = ObjectId ''s1'' then Some \<lparr>ds_id = Some ''s1'', ds_status = ''succeeded''\<rparr>
      else if i = ObjectId ''f1'' then Some \<lparr>ds_id = Some ''f1'', ds_status = ''failed''\<rparr>
      else if i = ObjectId ''p1'' then Some \<lparr>ds_id = Some ''p1'', ds_status = ''pending''\<rparr>
      else None)"

definition impact :: "string \<Rightarrow> string \<Rightarrow> 'n \<Rightarrow> 'n CalculatedImpact" where
  "impact s c v =
     \<lparr>activity = Some \<lparr>activity_category = Some c, ghgScope = Some s\<rparr>,
      impacts = Some \<lparr>impact_value = Some v\<rparr>\<rparr>"

definition unvalued :: "string \<Rightarrow> string \<Rightarrow> 'n CalculatedImpact" where
  "unvalued s c =
     \<lparr>activity = Some \<lparr>activity_category = Some c, ghgScope = Some s\<rparr>, impacts = None\<rparr>"

definition big :: int where
  "big = 9007199254740992"


section \<open>Properties of the role order\<close>

text \<open>
  C2. For all inputs \<open>have\<close> and \<open>want\<close>, each a defined role, null or undefined,
  \<open>isRoleAtLeast have want\<close> is true exactly when both are defined roles and the rank of
  \<open>have\<close> is at least the rank of \<open>want\<close>; the result is false whenever \<open>want\<close> is null or
  undefined and whenever \<open>have\<close> is null or undefined; the ranks are GUEST = 0, USER = 1,
  ADMIN = 2, SUPER_ADMIN = 3. The function has no failing branch: it is a total predicate.
\<close>

theorem isRoleAtLeast_total_rank_comparison:
  "(isRoleAtLeast haveRole wantRole =
      (\<exists>h w. haveRole = Defined h \<and> wantRole = Defined w
         \<and> ORGANIZATION_ROLE_ORDER h \<ge> ORGANIZATION_ROLE_ORDER w))
   \<and> isRoleAtLeast haveRole Null = False \<and> isRoleAtLeast haveRole Undefined = False
   \<and> isRoleAtLeast Null wantRole = False \<and> isRoleAtLeast Undefined wantRole = False
   \<and> ORGANIZATION_ROLE_ORDER GUEST = 0 \<and> ORGANIZATION_ROLE_ORDER USER = 1
   \<and> ORGANIZATION_ROLE_ORDER ADMIN = 2 \<and> ORGANIZATION_ROLE_ORDER SUPER_ADMIN = 3"
proof -
  have absent_have: "\<not> isRoleAtLeast Null w \<and> \<not> isRoleAtLeast Undefined w" for w
  proof (cases w)
    case (Defined r)
    then show ?thesis by (cases r) (simp_all add: isRoleAtLeast_def)
  qed (simp_all add: isRoleAtLeast_def)
  have absent_want: "\<not> isRoleAtLeast h Null \<and> \<not> isRoleAtLeast h Undefined" for h
  proof (cases h)
    case (Defined r)
    then show ?thesis by (cases r) (simp_all add: isRoleAtLeast_def)
  qed (simp_all add: isRoleAtLeast_def)
  have main: "isRoleAtLeast haveRole wantRole =
      (\<exists>h w. haveRole = Defined h \<and> wantRole = Defined w
         \<and> ORGANIZATION_ROLE_ORDER h \<ge> ORGANIZATION_ROLE_ORDER w)"
  proof (cases haveRole)
    case (Defined h)
    then show ?thesis
      using absent_want [of "Defined h"] by (cases wantRole) (simp_all add: isRoleAtLeast_def)
  qed (use absent_have [of wantRole] in simp_all)
  show ?thesis using main absent_have absent_want by simp
qed

text \<open>
  C3, as stated, asks that \<open>isRoleAtLeast r undefined\<close> be true for every defined role \<open>r\<close>.
  The absent required role gets the index 99, above every rank, so the check fails even
  for the highest role.
\<close>

theorem isRoleAtLeast_absent_requirement_counterexample:
  "\<not> isRoleAtLeast (Defined SUPER_ADMIN) Undefined"
  by (simp add: isRoleAtLeast_def)

text \<open>
  C3, amended. \<open>isRoleAtLeast undefined r\<close> is false for every defined role \<open>r\<close>, and
  \<open>isRoleAtLeast r undefined\<close> is false for every defined role \<open>r\<close> as well: an absent
  role satisfies nothing and an absent requirement is satisfied by nothing.
\<close>

theorem isRoleAtLeast_absent_either_side:
  "isRoleAtLeast Undefined (Defined r) = False \<and> isRoleAtLeast (Defined r) Undefined = False"
  by (cases r) (simp_all add: isRoleAtLeast_def)

section \<open>Membership checks\<close>

lemma Array_find_no_match: "(\<forall>x\<in>set xs. p x = Inr False) \<Longrightarrow> Array_find p xs = Inr None"
  by (induction xs) simp_all

lemma Array_find_first_match:
  "(\<forall>x\<in>set pre. p x = Inr False) \<Longrightarrow> p m = Inr True \<Longrightarrow> Array_find p (pre @ m # post) = Inr (Some m)"
  by (induction pre) simp_all

lemma user_id_equals_hasUser:
  "hasUser m \<Longrightarrow> user_id_equals uid m = Inr (member_user_id (member_user m) = Inr uid)"
  by (cases "member_user m") (simp_all add: user_id_equals_def hasUser_def)

lemma user_email_is_hasUser:
  "hasUser m \<Longrightarrow> user_email_is email m = Inr (member_user_email (member_user m) = Inr (Some email))"
  by (cases "member_user m") (simp_all add: user_email_is_def hasUser_def)

lemma Array_find_total:
  assumes "\<forall>x\<in>set xs. p x = Inr (q x)"
  shows "\<exists>found. Array_find p xs = Inr found \<and> (found = None) = (\<forall>x\<in>set xs. \<not> q x)"
  using assms
proof (induction xs)
  case Nil
  show ?case by simp
next
  case (Cons a xs)
  then have head: "p a = Inr (q a)" and rest: "\<forall>x\<in>set xs. p x = Inr (q x)"
    by simp_all
  from Cons.IH [OF rest] obtain found
    where "Array_find p xs = Inr found" "(found = None) = (\<forall>x\<in>set xs. \<not> q x)"
    by blast
  then show ?case
    using head by (cases "q a") simp_all
qed

lemma inviterRole_absent:
  assumes "list_all hasUser ms"
    and "\<forall>m\<in>set ms. member_user_id (member_user m) \<noteq> Inr (user_id invitedByUser)"
  shows "inviterRole ms invitedByUser = Inr Undefined"
proof -
  from assms have "\<forall>m\<in>set ms. user_id_equals (user_id invitedByUser) m = Inr False"
    by (simp add: list_all_iff user_id_equals_hasUser)
  from Array_find_no_match [OF this] show ?thesis
    by (simp add: inviterRole_def optional_role_def)
qed

lemma inviterRole_first:
  assumes "list_all hasUser (pre @ m # post)"
    and "\<forall>x\<in>set pre. member_user_id (member_user x) \<noteq> Inr (user_id invitedByUser)"
    and "member_user_id (member_user m) = Inr (user_id invitedByUser)"
  shows "inviterRole (pre @ m # post) invitedByUser = Inr (Defined (member_role m))"
proof -
  from assms(1,2) have "\<forall>x\<in>set pre. user_id_equals (user_id invitedByUser) x = Inr False"
    by (simp add: list_all_iff user_id_equals_hasUser)
  moreover from assms(1,3) have "user_id_equals (user_id invitedByUser) m = Inr True"
    by (simp add: user_id_equals_hasUser)
  ultimately have "Array_find (user_id_equals (user_id invitedByUser)) (pre @ m # post) = Inr (Some m)"
    by (rule Array_find_first_match)
  then show ?thesis
    by (simp add: inviterRole_def optional_role_def)
qed

lemma addMember_hasUser:
  assumes "list_all hasUser ms"
  shows "addMember persist userData organization ms
     = (if \<exists>x\<in>set ms. member_user_email (member_user x) = Inr (Some (invite_email userData))
        then Inl (BadRequestException ''User with specified email is already organization member'')
        else persist userData organization)"
proof -
  from assms have "\<forall>x\<in>set ms. user_email_is (invite_email userData) x
      = Inr (member_user_email (member_user x) = Inr (Some (invite_email userData)))"
    by (simp add: list_all_iff user_email_is_hasUser)
  from Array_find_total [OF this] obtain found
    where "Array_find (user_email_is (invite_email userData)) ms = Inr found"
      and "(found = None)
        = (\<forall>x\<in>set ms. member_user_email (member_user x) \<noteq> Inr (Some (invite_email userData)))"
    by blast
  then show ?thesis
    by (cases found) (auto simp: addMember_def isMember_def)
qed

text \<open>
  When the organization has a membership list and every entry carries a user,
  \<open>checkMember\<close> does what its documentation says: \<open>ForbiddenException\<close> when no entry
  has the user's id; with \<open>m\<close> the first entry that has it, \<open>ForbiddenException\<close>
  exactly when \<open>isRoleAtLeast m.role minRole\<close> is false, and the validator otherwise.
\<close>

lemma checkMember_populated:
  assumes "members (org this) = Some ms" and "list_all hasUser ms"
  shows "((\<forall>m\<in>set ms. member_user_id (member_user m) \<noteq> Inr (user_id (userDoc user)))
           \<longrightarrow> (\<exists>msg. checkMember this user minRole = Inl (ForbiddenException msg)))
       \<and> (\<forall>pre m post.
             ms = pre @ m # post
             \<and> (\<forall>x\<in>set pre. member_user_id (member_user x) \<noteq> Inr (user_id (userDoc user)))
             \<and> member_user_id (member_user m) = Inr (user_id (userDoc user))
             \<longrightarrow> ((\<exists>msg. checkMember this user minRole = Inl (ForbiddenException msg))
                    = (\<not> isRoleAtLeast (Defined (member_role m)) (Defined minRole)))
                 \<and> (isRoleAtLeast (Defined (member_role m)) (Defined minRole)
                      \<longrightarrow> checkMember this user minRole = Inr this))"
proof (intro conjI impI allI)
  assume none: "\<forall>m\<in>set ms. member_user_id (member_user m) \<noteq> Inr (user_id (userDoc user))"
  with assms(2) have "\<forall>m\<in>set ms. user_id_equals (user_id (userDoc user)) m = Inr False"
    by (simp add: list_all_iff user_id_equals_hasUser)
  from Array_find_no_match [OF this] assms(1)
  have "find_membership (org this) (user_id (userDoc user)) = Inr None"
    by (simp add: find_membership_def)
  moreover have "\<not> isRoleAtLeast Undefined (Defined minRole)"
    by (cases minRole) (simp_all add: isRoleAtLeast_def)
  ultimately show "\<exists>msg. checkMember this user minRole = Inl (ForbiddenException msg)"
    by (simp add: checkMember_def optional_role_def)
next
  fix pre m post
  assume a: "ms = pre @ m # post
             \<and> (\<forall>x\<in>set pre. member_user_id (member_user x) \<noteq> Inr (user_id (userDoc user)))
             \<and> member_user_id (member_user m) = Inr (user_id (userDoc user))"
  with assms(2) have "\<forall>x\<in>set pre. user_id_equals (user_id (userDoc user)) x = Inr False"
    and "user_id_equals (user_id (userDoc user)) m = Inr True"
    by (simp_all add: list_all_iff user_id_equals_hasUser)
  from Array_find_first_match [OF this] a assms(1)
  have found: "find_membership (org this) (user_id (userDoc user)) = Inr (Some m)"
    by (simp add: find_membership_def)
  show "(\<exists>msg. checkMember this user minRole = Inl (ForbiddenException msg))
                    = (\<not> isRoleAtLeast (Defined (member_role m)) (Defined minRole))"
    using found by (simp add: checkMember_def optional_role_def)
  assume "isRoleAtLeast (Defined (member_role m)) (Defined minRole)"
  then show "checkMember this user minRole = Inr this"
    using found by (simp add: checkMember_def optional_role_def)
qed


section \<open>Invitations\<close>

text \<open>
  C1, as stated, asks for \<open>ForbiddenException\<close> on every invitation by a user who is not
  a site admin and asks for a role above their own. Alice (site role user, role USER in
  Acme) invites someone as ADMIN with an empty name: the guard on the properties comes
  first and the call fails with \<open>BadRequestException\<close>.
\<close>

theorem inviteUserToOrganization_empty_name_counterexample:
  "user_role alice \<noteq> UserRoles_ADMIN
   \<and> inviterRole (the (members acme)) alice = Inr (Defined USER)
   \<and> \<not> isRoleAtMost (Defined ADMIN) (Defined USER)
   \<and> inviteUserToOrganization saved (invitation [] ADMIN) acme alice
       = Inl (BadRequestException specify_msg)"
  by (simp add: inviteUserToOrganization_def invitation_def alice_def acme_def inviterRole_def
      user_id_equals_def optional_role_def isRoleAtMost_def isRoleAtLeast_def)

text \<open>
  C1, amended. An invitation whose name or email is empty or whose role is missing
  fails with \<open>BadRequestException\<close>, whoever invites. For every invitation with a
  non-empty name and email and a requested role \<open>r\<close>, into an organization that has a
  membership list whose entries all carry a user:
  if the inviter's site role is not the site admin role and no entry has the inviter's
  id, the call throws \<open>ForbiddenException\<close> for every \<open>r\<close>;
  if the inviter's site role is not the site admin role and \<open>m\<close> is the first entry
  with the inviter's id, the call throws \<open>ForbiddenException\<close> unless
  \<open>isRoleAtMost r m.role\<close> holds;
  if the inviter is a site admin, or that check holds, no escalation error is raised
  for any requested role: the call fails with \<open>BadRequestException\<close> when an entry's user
  already has the email, and otherwise goes on to persistence.
\<close>

theorem inviteUserToOrganization_escalation_check:
  "(invite_name userData = [] \<or> invite_email userData = []
      \<or> invite_role userData = Null \<or> invite_role userData = Undefined
     \<longrightarrow> inviteUserToOrganization persist userData organization invitedByUser
           = Inl (BadRequestException specify_msg))
   \<and> (invite_name userData \<noteq> [] \<and> invite_email userData \<noteq> []
        \<and> invite_role userData = Defined r
        \<and> members organization = Some ms \<and> list_all hasUser ms
     \<longrightarrow> (user_role invitedByUser \<noteq> UserRoles_ADMIN
            \<and> (\<forall>m\<in>set ms. member_user_id (member_user m) \<noteq> Inr (user_id invitedByUser))
          \<longrightarrow> inviteUserToOrganization persist userData organization invitedByUser
                = Inl (ForbiddenException (escalation_msg Undefined (Defined r))))
        \<and> (\<forall>pre m post.
              user_role invitedByUser \<noteq> UserRoles_ADMIN
              \<and> ms = pre @ m # post
              \<and> (\<forall>x\<in>set pre. member_user_id (member_user x) \<noteq> Inr (user_id invitedByUser))
              \<and> member_user_id (member_user m) = Inr (user_id invitedByUser)
            \<longrightarrow> inviteUserToOrganization persist userData organization invitedByUser
                  = (if isRoleAtMost (Defined r) (Defined (member_role m))
                     then (if \<exists>x\<in>set ms. member_user_email (member_user x)
                                            = Inr (Some (invite_email userData))
                           then Inl (BadRequestException
                                  ''User with specified email is already organization member'')
                           else persist userData organization)
                     else Inl (ForbiddenException
                            (escalation_msg (Defined (member_role m)) (Defined r)))))
        \<and> (user_role invitedByUser = UserRoles_ADMIN
          \<longrightarrow> inviteUserToOrganization persist userData organization invitedByUser
                = (if \<exists>x\<in>set ms. member_user_email (member_user x)
                                      = Inr (Some (invite_email userData))
                   then Inl (BadRequestException
                          ''User with specified email is already organization member'')
                   else persist userData organization)))"
proof (intro conjI impI allI)
  assume "invite_name userData = [] \<or> invite_email userData = []
      \<or> invite_role userData = Null \<or> invite_role userData = Undefined"
  then show "inviteUserToOrganization persist userData organization invitedByUser
           = Inl (BadRequestException specify_msg)"
    by (auto simp: inviteUserToOrganization_def falsy_role_def)
next
  assume valid: "invite_name userData \<noteq> [] \<and> invite_email userData \<noteq> []
        \<and> invite_role userData = Defined r
        \<and> members organization = Some ms \<and> list_all hasUser ms"
  assume stranger: "user_role invitedByUser \<noteq> UserRoles_ADMIN
            \<and> (\<forall>m\<in>set ms. member_user_id (member_user m) \<noteq> Inr (user_id invitedByUser))"
  from valid stranger have "inviterRole ms invitedByUser = Inr Undefined"
    using inviterRole_absent [of ms invitedByUser] by simp
  moreover have "\<not> isRoleAtMost (Defined r) Undefined"
    by (cases r) (simp_all add: isRoleAtMost_def isRoleAtLeast_def)
  ultimately show "inviteUserToOrganization persist userData organization invitedByUser
                = Inl (ForbiddenException (escalation_msg Undefined (Defined r)))"
    using valid stranger by (simp add: inviteUserToOrganization_def falsy_role_def)
next
  fix pre m post
  assume valid: "invite_name userData \<noteq> [] \<and> invite_email userData \<noteq> []
        \<and> invite_role userData = Defined r
        \<and> members organization = Some ms \<and> list_all hasUser ms"
  assume a: "user_role invitedByUser \<noteq> UserRoles_ADMIN
              \<and> ms = pre @ m # post
              \<and> (\<forall>x\<in>set pre. member_user_id (member_user x) \<noteq> Inr (user_id invitedByUser))
              \<and> member_user_id (member_user m) = Inr (user_id invitedByUser)"
  from valid have users: "list_all hasUser ms" by simp
  from users a have "inviterRole ms invitedByUser = Inr (Defined (member_role m))"
    using inviterRole_first [of pre m post invitedByUser] by simp
  then show "inviteUserToOrganization persist userData organization invitedByUser
                  = (if isRoleAtMost (Defined r) (Defined (member_role m))
                     then (if \<exists>x\<in>set ms. member_user_email (member_user x)
                                            = Inr (Some (invite_email userData))
                           then Inl (BadRequestException
                                  ''User with specified email is already organization member'')
                           else persist userData organization)
                     else Inl (ForbiddenException
                            (escalation_msg (Defined (member_role m)) (Defined r))))"
    using valid a addMember_hasUser [OF users, of persist userData organization]
    by (simp add: inviteUserToOrganization_def falsy_role_def)
next
  assume valid: "invite_name userData \<noteq> [] \<and> invite_email userData \<noteq> []
        \<and> invite_role userData = Defined r
        \<and> members organization = Some ms \<and> list_all hasUser ms"
  assume "user_role invitedByUser = UserRoles_ADMIN"
  moreover from valid have users: "list_all hasUser ms" by simp
  ultimately show "inviteUserToOrganization persist userData organization invitedByUser
                = (if \<exists>x\<in>set ms. member_user_email (member_user x)
                                      = Inr (Some (invite_email userData))
                   then Inl (BadRequestException
                          ''User with specified email is already organization member'')
                   else persist userData organization)"
    using valid addMember_hasUser [OF users, of persist userData organization]
    by (simp add: inviteUserToOrganization_def falsy_role_def)
qed

text \<open>
  In Acme: an invitation without email or without role is a bad request; Bob, no member,
  may not invite even at GUEST; Alice, USER, may invite at USER but not at ADMIN; the
  site admin, no member either, may invite at SUPER_ADMIN.
\<close>

theorem inviteUserToOrganization_escalation_check_witness:
  "inviteUserToOrganization saved ((invitation ''Carol'' GUEST)\<lparr>invite_email := []\<rparr>) acme root
     = Inl (BadRequestException specify_msg)
   \<and> inviteUserToOrganization saved ((invitation ''Carol'' GUEST)\<lparr>invite_role := Undefined\<rparr>) acme alice
     = Inl (BadRequestException specify_msg)
   \<and> inviteUserToOrganization saved (invitation ''Carol'' GUEST) acme bob
     = Inl (ForbiddenException (escalation_msg Undefined (Defined GUEST)))
   \<and> inviteUserToOrganization saved (invitation ''Carol'' ADMIN) acme alice
     = Inl (ForbiddenException (escalation_msg (Defined USER) (Defined ADMIN)))
   \<and> inviteUserToOrganization saved (invitation ''Carol'' USER) acme alice
     = Inr (invitation ''Carol'' USER)
   \<and> inviteUserToOrganization saved (invitation ''Carol'' SUPER_ADMIN) acme root
     = Inr (invitation ''Carol'' SUPER_ADMIN)"
proof -
  let ?m = "\<lparr>member_user = UserPopulated alice, member_role = USER\<rparr>"
  let ?rest = "[\<lparr>member_user = UserRef (ObjectId ''d4''), member_role = ADMIN\<rparr>]"
  let ?ms = "[] @ ?m # ?rest"
  have ms: "members acme = Some ?ms"
    by (simp add: acme_def)
  have users: "list_all hasUser ?ms"
    by (simp add: hasUser_def)
  have named: "invite_name (invitation ''Carol'' x) \<noteq> []"
    "invite_email (invitation ''Carol'' x) \<noteq> []"
    "invite_role (invitation ''Carol'' x) = Defined x" for x
    by (simp_all add: invitation_def)
  have new: "\<not> (\<exists>x\<in>set ?ms. member_user_email (member_user x)
      = Inr (Some (invite_email (invitation ''Carol'' r))))" for r
    by (simp add: invitation_def alice_def)
  have no_bob: "\<forall>m\<in>set ?ms. member_user_id (member_user m) \<noteq> Inr (user_id bob)"
    by (simp add: alice_def bob_def)
  have is_alice: "member_user_id (member_user ?m) = Inr (user_id alice)"
    by simp
  have sites: "user_role bob \<noteq> UserRoles_ADMIN" "user_role alice \<noteq> UserRoles_ADMIN"
    "user_role root = UserRoles_ADMIN"
    by (simp_all add: alice_def bob_def root_def)
  have roles: "\<not> isRoleAtMost (Defined ADMIN) (Defined (member_role ?m))"
    "isRoleAtMost (Defined USER) (Defined (member_role ?m))"
    by (simp_all add: isRoleAtMost_def isRoleAtLeast_def)
  have 1: "inviteUserToOrganization saved ((invitation ''Carol'' GUEST)\<lparr>invite_email := []\<rparr>) acme root
     = Inl (BadRequestException specify_msg)"
    using inviteUserToOrganization_escalation_check
      [where userData = "(invitation ''Carol'' GUEST)\<lparr>invite_email := []\<rparr>"
         and persist = saved and organization = acme and invitedByUser = root]
    by simp
  have 2: "inviteUserToOrganization saved ((invitation ''Carol'' GUEST)\<lparr>invite_role := Undefined\<rparr>) acme alice
     = Inl (BadRequestException specify_msg)"
    using inviteUserToOrganization_escalation_check
      [where userData = "(invitation ''Carol'' GUEST)\<lparr>invite_role := Undefined\<rparr>"
         and persist = saved and organization = acme and invitedByUser = alice]
    by simp
  have 3: "inviteUserToOrganization saved (invitation ''Carol'' GUEST) acme bob
     = Inl (ForbiddenException (escalation_msg Undefined (Defined GUEST)))"
    using inviteUserToOrganization_escalation_check
      [where userData = "invitation ''Carol'' GUEST" and r = GUEST and ms = ?ms
         and persist = saved and organization = acme and invitedByUser = bob]
      named [of GUEST] ms users no_bob sites(1)
    by blast
  have 4: "inviteUserToOrganization saved (invitation ''Carol'' ADMIN) acme alice
     = Inl (ForbiddenException (escalation_msg (Defined USER) (Defined ADMIN)))"
  proof -
    from inviteUserToOrganization_escalation_check
      [where userData = "invitation ''Carol'' ADMIN" and r = ADMIN and ms = ?ms
         and persist = saved and organization = acme and invitedByUser = alice]
      named [of ADMIN] ms users sites(2) is_alice
    have "inviteUserToOrganization saved (invitation ''Carol'' ADMIN) acme alice
      = (if isRoleAtMost (Defined ADMIN) (Defined (member_role ?m))
         then (if \<exists>x\<in>set ?ms. member_user_email (member_user x)
                                = Inr (Some (invite_email (invitation ''Carol'' ADMIN)))
               then Inl (BadRequestException
                      ''User with specified email is already organization member'')
               else saved (invitation ''Carol'' ADMIN) acme)
         else Inl (ForbiddenException
                (escalation_msg (Defined (member_role ?m)) (Defined ADMIN))))"
      by (metis empty_iff list.set(1))
    then show ?thesis using roles(1) by simp
  qed
  have 5: "inviteUserToOrganization saved (invitation ''Carol'' USER) acme alice
     = Inr (invitation ''Carol'' USER)"
  proof -
    from inviteUserToOrganization_escalation_check
      [where userData = "invitation ''Carol'' USER" and r = USER and ms = ?ms
         and persist = saved and organization = acme and invitedByUser = alice]
      named [of USER] ms users sites(2) is_alice
    have "inviteUserToOrganization saved (invitation ''Carol'' USER) acme alice
      = (if isRoleAtMost (Defined USER) (Defined (member_role ?m))
         then (if \<exists>x\<in>set ?ms. member_user_email (member_user x)
                                = Inr (Some (invite_email (invitation ''Carol'' USER)))
               then Inl (BadRequestException
                      ''User with specified email is already organization member'')
               else saved (invitation ''Carol'' USER) acme)
         else Inl (ForbiddenException
                (escalation_msg (Defined (member_role ?m)) (Defined USER))))"
      by (metis empty_iff list.set(1))
    then show ?thesis using roles(2) new [of USER] by (simp add: saved_def)
  qed
  have 6: "inviteUserToOrganization saved (invitation ''Carol'' SUPER_ADMIN) acme root
     = Inr (invitation ''Carol'' SUPER_ADMIN)"
  proof -
    from inviteUserToOrganization_escalation_check
      [where userData = "invitation ''Carol'' SUPER_ADMIN" and r = SUPER_ADMIN and ms = ?ms
         and persist = saved and organization = acme and invitedByUser = root]
      named [of SUPER_ADMIN] ms users sites(3)
    have "inviteUserToOrganization saved (invitation ''Carol'' SUPER_ADMIN) acme root
      = (if \<exists>x\<in>set ?ms. member_user_email (member_user x)
                            = Inr (Some (invite_email (invitation ''Carol'' SUPER_ADMIN)))
         then Inl (BadRequestException
                ''User with specified email is already organization member'')
         else saved (invitation ''Carol'' SUPER_ADMIN) acme)"
      by blast
    then show ?thesis using new [of SUPER_ADMIN] by (simp add: saved_def)
  qed
  from 1 2 3 4 5 6 show ?thesis by blast
qed

section \<open>Comparing ids\<close>

text \<open>
  C9. For all arguments (a string, an ObjectId, null, undefined, or a malformed value
  without \<open>equals\<close>), \<open>isObjectIdsEquals\<close> returns a boolean and raises no error, and the
  result is false whenever either argument is null, undefined or malformed.
\<close>

theorem isObjectIdsEquals_never_throws:
  "(\<exists>b. isObjectIdsEquals equals v other = Inr b)
   \<and> isObjectIdsEquals equals IdNull other = Inr False
   \<and> isObjectIdsEquals equals IdUndefined other = Inr False
   \<and> isObjectIdsEquals equals IdMalformed other = Inr False
   \<and> isObjectIdsEquals equals v IdNull = Inr False
   \<and> isObjectIdsEquals equals v IdUndefined = Inr False
   \<and> isObjectIdsEquals equals v IdMalformed = Inr False"
proof -
  have left: "isObjectIdsEquals equals IdNull x = Inr False"
    "isObjectIdsEquals equals IdUndefined x = Inr False"
    "isObjectIdsEquals equals IdMalformed x = Inr False" for x
    by (simp_all add: isObjectIdsEquals_def unusable_def)
  have right: "isObjectIdsEquals equals x IdNull = Inr False"
    "isObjectIdsEquals equals x IdUndefined = Inr False"
    "isObjectIdsEquals equals x IdMalformed = Inr False" for x
    by (cases x; simp add: isObjectIdsEquals_def unusable_def)+
  have total: "\<exists>b. isObjectIdsEquals equals v other = Inr b"
    by (cases v; cases other; auto simp: isObjectIdsEquals_def unusable_def)
  show ?thesis using left right total by simp
qed

section \<open>Completion of calculations\<close>

lemma Promise_all_Some:
  "Promise_all ps = Some xs \<Longrightarrow> ps = map Some xs"
  by (induction ps arbitrary: xs rule: Promise_all.induct) (auto split: option.splits)

lemma Promise_all_None:
  "Promise_all ps = None \<Longrightarrow> None \<in> set ps"
  by (induction ps rule: Promise_all.induct) (auto split: option.splits)

lemma list_all_looked_up:
  "map g ids = map Some ds \<Longrightarrow> list_all P ds = (\<forall>i\<in>set ids. \<exists>d. g i = Some d \<and> P d)"
proof (induction ids arbitrary: ds)
  case Nil
  then show ?case by simp
next
  case (Cons i ids)
  then obtain d ds' where "ds = d # ds'" "g i = Some d" "map g ids = map Some ds'"
    by (cases ds) auto
  then show ?case using Cons.IH [of ds'] by simp
qed

lemma isCalculationComplete_cases:
  "(\<exists>i\<in>set ids. getDataSource authToken i = None)
     \<and> isCalculationCompleteForDataSources getDataSource authToken ids = None
   \<or> isCalculationCompleteForDataSources getDataSource authToken ids
       = Some (\<forall>i\<in>set ids. \<exists>d. getDataSource authToken i = Some d
                 \<and> (ds_status d = ''succeeded'' \<or> ds_status d = ''failed''))"
proof (cases "Promise_all (map (\<lambda>i. getDataSource authToken i) ids)")
  case None
  then have "None \<in> set (map (\<lambda>i. getDataSource authToken i) ids)"
    by (rule Promise_all_None)
  then have "\<exists>i\<in>set ids. getDataSource authToken i = None"
    by (metis (mono_tags, lifting) imageE list.set_map)
  then show ?thesis using None
    by (simp add: isCalculationCompleteForDataSources_def)
next
  case (Some ds)
  then have "map (\<lambda>i. getDataSource authToken i) ids = map Some ds"
    by (rule Promise_all_Some)
  from list_all_looked_up [OF this] Some show ?thesis
    by (simp add: isCalculationCompleteForDataSources_def)
qed

text \<open>
  C5. For every list of data-source ids, \<open>isCalculationCompleteForDataSources\<close> returns
  true exactly when every id's lookup yields a status that is \<open>succeeded\<close> or \<open>failed\<close>;
  when all lookups answer and some id has any other status, it returns false; for the
  empty list it returns true.
\<close>

theorem isCalculationCompleteForDataSources_terminal:
  "(isCalculationCompleteForDataSources getDataSource authToken ids = Some True)
     = (\<forall>i\<in>set ids. \<exists>d. getDataSource authToken i = Some d
            \<and> (ds_status d = ''succeeded'' \<or> ds_status d = ''failed''))
   \<and> ((\<forall>i\<in>set ids. getDataSource authToken i \<noteq> None)
       \<and> (\<exists>i\<in>set ids. \<exists>d. getDataSource authToken i = Some d
              \<and> ds_status d \<noteq> ''succeeded'' \<and> ds_status d \<noteq> ''failed'')
       \<longrightarrow> isCalculationCompleteForDataSources getDataSource authToken ids = Some False)
   \<and> isCalculationCompleteForDataSources getDataSource authToken [] = Some True"
proof (intro conjI impI)
  show "(isCalculationCompleteForDataSources getDataSource authToken ids = Some True)
     = (\<forall>i\<in>set ids. \<exists>d. getDataSource authToken i = Some d
            \<and> (ds_status d = ''succeeded'' \<or> ds_status d = ''failed''))"
    using isCalculationComplete_cases [of ids getDataSource authToken] by auto
  show "isCalculationCompleteForDataSources getDataSource authToken [] = Some True"
    by (simp add: isCalculationCompleteForDataSources_def)
  assume a: "(\<forall>i\<in>set ids. getDataSource authToken i \<noteq> None)
       \<and> (\<exists>i\<in>set ids. \<exists>d. getDataSource authToken i = Some d
              \<and> ds_status d \<noteq> ''succeeded'' \<and> ds_status d \<noteq> ''failed'')"
  then have "\<not> (\<forall>i\<in>set ids. \<exists>d. getDataSource authToken i = Some d
                 \<and> (ds_status d = ''succeeded'' \<or> ds_status d = ''failed''))"
    by (metis option.inject)
  then show "isCalculationCompleteForDataSources getDataSource authToken ids = Some False"
    using isCalculationComplete_cases [of ids getDataSource authToken] a by auto
qed

text \<open>
  Statuses succeeded, failed, succeeded are complete; succeeded, pending are not.
\<close>

theorem isCalculationCompleteForDataSources_terminal_witness:
  "isCalculationCompleteForDataSources statusOf ''token'' [ObjectId ''s1'', ObjectId ''f1'', ObjectId ''s1'']
     = Some True
   \<and> isCalculationCompleteForDataSources statusOf ''token'' [ObjectId ''s1'', ObjectId ''p1'']
     = Some False"
proof -
  have finished: "\<forall>i\<in>set [ObjectId ''s1'', ObjectId ''f1'', ObjectId ''s1''].
      \<exists>d. statusOf ''token'' i = Some d \<and> (ds_status d = ''succeeded'' \<or> ds_status d = ''failed'')"
    by (simp add: statusOf_def)
  have answered: "\<forall>i\<in>set [ObjectId ''s1'', ObjectId ''p1'']. statusOf ''token'' i \<noteq> None"
    by (simp add: statusOf_def)
  have pending: "\<exists>i\<in>set [ObjectId ''s1'', ObjectId ''p1''].
      \<exists>d. statusOf ''token'' i = Some d \<and> ds_status d \<noteq> ''succeeded'' \<and> ds_status d \<noteq> ''failed''"
    by (simp add: statusOf_def)
  show ?thesis
    using isCalculationCompleteForDataSources_terminal
        [of statusOf "''token''" "[ObjectId ''s1'', ObjectId ''f1'', ObjectId ''s1'']"]
      isCalculationCompleteForDataSources_terminal
        [of statusOf "''token''" "[ObjectId ''s1'', ObjectId ''p1'']"]
      finished answered pending
    by blast
qed

section \<open>Grouping and summing\<close>

subsection \<open>What groupBy builds\<close>

lemma groupBy_snoc: "groupBy (xs @ [v]) f = group_push (groupBy xs f) (f v) v"
  by (simp add: groupBy_def)

lemma group_push_keys:
  "map fst (group_push obj k v) = (if k \<in> set (map fst obj) then map fst obj else map fst obj @ [k])"
  by (induction obj k v rule: group_push.induct) auto

lemma group_push_map_of:
  "map_of (group_push obj k v)
     = (map_of obj)(k \<mapsto> (case map_of obj k of None \<Rightarrow> [v] | Some vs \<Rightarrow> vs @ [v]))"
  by (induction obj k v rule: group_push.induct) (auto simp: fun_eq_iff)

lemma groupBy_keys_distinct: "distinct (map fst (groupBy xs f))"
  by (induction xs rule: rev_induct) (simp_all add: groupBy_def group_push_keys)

lemma groupBy_keys: "set (map fst (groupBy xs f)) = f ` set xs"
proof (induction xs rule: rev_induct)
  case Nil
  show ?case by (simp add: groupBy_def)
next
  case (snoc v xs)
  then show ?case by (auto simp: groupBy_snoc group_push_keys)
qed

lemma groupBy_map_of:
  "map_of (groupBy xs f) k
     = (if k \<in> f ` set xs then Some (filter (\<lambda>x. f x = k) xs) else None)"
proof (induction xs arbitrary: k rule: rev_induct)
  case Nil
  show ?case by (simp add: groupBy_def)
next
  case (snoc v xs)
  have fresh: "filter (\<lambda>x. f x = f v) xs = []" if "f v \<notin> f ` set xs"
    using that by (induction xs) auto
  show ?case
  proof (cases "k = f v")
    case True
    then show ?thesis
      using snoc [of "f v"] fresh by (simp add: groupBy_snoc group_push_map_of)
  next
    case False
    then show ?thesis
      using snoc [of k] by (auto simp: groupBy_snoc group_push_map_of)
  qed
qed

lemma groupBy_entry:
  assumes "(k, vs) \<in> set (groupBy xs f)"
  shows "k \<in> f ` set xs \<and> vs = filter (\<lambda>x. f x = k) xs"
proof -
  have "map_of (groupBy xs f) k = Some vs"
    using assms groupBy_keys_distinct by (rule map_of_is_SomeI [rotated])
  then show ?thesis
    by (simp add: groupBy_map_of split: if_splits)
qed


subsection \<open>Enumeration keeps the entries\<close>

lemma set_Object_entries: "set (Object_entries obj) = set obj"
  by (auto simp: Object_entries_def)

lemma mset_Object_entries: "mset (Object_entries obj) = mset obj"
  by (simp add: Object_entries_def)

subsection \<open>Sums when addition is associative and commutative\<close>

lemma reduceSum_sum_list: "reduceSum xs = sum_list (xs :: ('n::comm_monoid_add) list)"
proof -
  have "foldl (\<lambda>a b. a + b) a xs = a + sum_list xs" for a :: 'n
    by (induction xs arbitrary: a) (simp_all add: add.assoc)
  from this [of 0] show ?thesis by (simp add: reduceSum_def)
qed

lemma sumEmissions_sum_list:
  "sumEmissions xs = sum_list (map impactValue (xs :: ('n::comm_monoid_add) CalculatedImpact list))"
  using reduceSum_sum_list [of "map impactValue xs"] by (simp add: sumEmissions_def reduceSum_def)

lemma group_push_sum:
  fixes g :: "'a \<Rightarrow> 'n::comm_monoid_add"
  shows "sum_list (map (\<lambda>e. sum_list (map g (snd e))) (group_push obj k v))
     = sum_list (map (\<lambda>e. sum_list (map g (snd e))) obj) + g v"
  by (induction obj k v rule: group_push.induct) (simp_all add: ac_simps)

lemma groupBy_sum:
  fixes g :: "'a \<Rightarrow> 'n::comm_monoid_add"
  shows "sum_list (map (\<lambda>e. sum_list (map g (snd e))) (groupBy xs f)) = sum_list (map g xs)"
proof (induction xs rule: rev_induct)
  case Nil
  show ?case by (simp add: groupBy_def)
next
  case (snoc v xs)
  then show ?case by (simp add: groupBy_snoc group_push_sum)
qed

lemma Object_entries_sum:
  fixes h :: "string \<times> 'v \<Rightarrow> 'n::comm_monoid_add"
  shows "sum_list (map h (Object_entries obj)) = sum_list (map h obj)"
proof -
  have "sum_list (map h xs) = sum_mset (image_mset h (mset xs))" for xs
    by (metis mset_map sum_mset_sum_list)
  then show ?thesis by (simp add: mset_Object_entries)
qed

lemma bucket_sums:
  fixes xs :: "('n::comm_monoid_add) CalculatedImpact list"
  shows "sum_list (map (\<lambda>e. sumEmissions (snd e)) (Object_entries (groupBy xs f))) = sumEmissions xs"
  by (simp add: Object_entries_sum sumEmissions_sum_list groupBy_sum)

lemma categoryBreakdown_sum:
  fixes xs :: "('n::comm_monoid_add) CalculatedImpact list"
  shows "reduceSum (map categoryValue (getEmissionsByCategory xs)) = sumEmissions xs"
proof -
  have "map categoryValue (getEmissionsByCategory xs)
      = map (\<lambda>e. sumEmissions (snd e)) (Object_entries (groupBy xs categoryKey))"
    by (simp add: getEmissionsByCategory_def categoryValue_def split_def)
  then show ?thesis by (simp add: reduceSum_sum_list bucket_sums)
qed

subsection \<open>The entries of a summary\<close>

lemma scopeValues:
  "map scopeValue (emissionsByScope (aggregateImpacts xs))
     = map (\<lambda>e. sumEmissions (snd e)) (Object_entries (groupBy xs scopeKey))"
  by (simp add: aggregateImpacts_def scopeValue_def split_def Let_def)

lemma totalValue_reduceSum:
  "totalValue (aggregateImpacts xs) = reduceSum (map scopeValue (emissionsByScope (aggregateImpacts xs)))"
  by (simp add: aggregateImpacts_def totalValue_def reduceSum_def scopeValue_def Let_def split_def comp_def)

lemma totalValue_exact:
  fixes xs :: "('n::comm_monoid_add) CalculatedImpact list"
  shows "totalValue (aggregateImpacts xs) = sum_list (map impactValue xs)"
  unfolding totalValue_reduceSum scopeValues reduceSum_sum_list bucket_sums
  by (rule sumEmissions_sum_list)

lemma scope_entry:
  assumes "e \<in> set (emissionsByScope (aggregateImpacts xs))"
  shows "\<exists>vs. scopeValue e = sumEmissions vs \<and> categoryBreakdown e = getEmissionsByCategory vs
           \<and> vs = filter (\<lambda>x. scopeKey x = scope e) xs \<and> scope e \<in> scopeKey ` set xs"
proof -
  from assms obtain k vs where kv: "(k, vs) \<in> set (Object_entries (groupBy xs scopeKey))"
    and e: "e = \<lparr>scope = k,
                  scope_emission = \<lparr>emission_value = sumEmissions vs, emission_unit = CO2KGS\<rparr>,
                  categoryBreakdown = getEmissionsByCategory vs\<rparr>"
    by (auto simp: aggregateImpacts_def Let_def)
  from kv have "(k, vs) \<in> set (groupBy xs scopeKey)"
    by (simp add: set_Object_entries)
  from groupBy_entry [OF this] e show ?thesis
    by (simp add: scopeValue_def)
qed



subsection \<open>Sums of doubles\<close>

lemma bit_length_0: "bit_length 0 = 0"
  by (simp add: bit_length.simps)

lemma bit_length_Suc_0: "bit_length (Suc 0) = 1"
  by (simp add: bit_length.simps [of "Suc 0"] bit_length_0)

lemma bit_length_1: "bit_length 1 = 1"
  by (simp add: bit_length_Suc_0)

lemma bit_length_Bit0: "bit_length (numeral (Num.Bit0 n)) = 1 + bit_length (numeral n)"
  by (subst bit_length.simps) (simp add: numeral_Bit0_div_2)

lemma bit_length_Bit1: "bit_length (numeral (Num.Bit1 n)) = 1 + bit_length (numeral n)"
  by (subst bit_length.simps) (simp add: numeral_Bit1_div_2)

lemmas bit_length_numeral = bit_length_0 bit_length_Suc_0 bit_length_1 bit_length_Bit0 bit_length_Bit1

lemmas double_arith = zero_jsnum_def to_double_def round_magnitude_def Let_def bit_length_numeral big_def

lemmas aggregate_eval = aggregateImpacts_def getEmissionsByCategory_def groupBy_def
  Object_entries_def is_array_index_def is_digit_def index_value_def scopeKey_def categoryKey_def
  sumEmissions_def impactValue_def impact_def unvalued_def

subsection \<open>Sums of doubles that are not rounded\<close>

lemma bit_length_bound: "m < 2 ^ k \<Longrightarrow> bit_length m \<le> k"
proof (induction k arbitrary: m)
  case 0
  then show ?case by (simp add: bit_length_0)
next
  case (Suc k)
  show ?case
  proof (cases "m = 0")
    case True
    then show ?thesis by (simp add: bit_length_0)
  next
    case False
    from Suc.prems have "m div 2 < 2 ^ k" by simp
    from Suc.IH [OF this] False show ?thesis
      by (subst bit_length.simps) simp
  qed
qed

lemma round_magnitude_exact: "m \<le> 2 ^ 53 \<Longrightarrow> round_magnitude m = m"
proof (cases "m = 2 ^ 53")
  case True
  then show ?thesis by (simp add: round_magnitude_def Let_def bit_length_numeral)
next
  case False
  assume "m \<le> 2 ^ 53"
  with False have "m < 2 ^ 53" by simp
  from bit_length_bound [OF this] show ?thesis
    by (simp add: round_magnitude_def)
qed

lemma to_double_exact: "\<bar>s\<bar> \<le> 2 ^ 53 \<Longrightarrow> to_double s = Num s"
proof -
  assume a: "\<bar>s\<bar> \<le> 2 ^ 53"
  then have "nat \<bar>s\<bar> \<le> 2 ^ 53" by (simp add: nat_le_iff)
  from round_magnitude_exact [OF this] have r: "round_magnitude (nat \<bar>s\<bar>) = nat \<bar>s\<bar>" .
  have "(2::nat) ^ 53 < 2 ^ 1024" by simp
  with \<open>nat \<bar>s\<bar> \<le> 2 ^ 53\<close> have "\<not> (2::nat) ^ 1024 \<le> nat \<bar>s\<bar>" by linarith
  then show ?thesis
    unfolding to_double_def r Let_def by auto
qed

lemma plus_exact: "\<bar>a + b\<bar> \<le> 2 ^ 53 \<Longrightarrow> Num a + Num b = Num (a + b)"
  by (simp add: to_double_exact)

lemma foldl_exact:
  "list_all integral vs \<Longrightarrow> \<bar>a\<bar> + sum_list (map (\<lambda>v. \<bar>integer_of v\<bar>) vs) \<le> 2 ^ 53
   \<Longrightarrow> foldl (\<lambda>x y. x + y) (Num a) vs = Num (a + sum_list (map integer_of vs))"
proof (induction vs arbitrary: a)
  case Nil
  then show ?case by simp
next
  case (Cons v vs)
  from Cons.prems(1) obtain i where v: "v = Num i" by (cases v) auto
  have nonneg: "0 \<le> sum_list (map (\<lambda>v. \<bar>integer_of v\<bar>) vs)"
    by (rule sum_list_nonneg) auto
  from Cons.prems(2) v nonneg have step: "\<bar>a + i\<bar> \<le> 2 ^ 53"
    by simp
  from Cons.prems(2) v have rest: "\<bar>a + i\<bar> + sum_list (map (\<lambda>v. \<bar>integer_of v\<bar>) vs) \<le> 2 ^ 53"
    by simp
  from Cons.prems(1) have "list_all integral vs" by simp
  from Cons.IH [OF this rest] show ?case
    using v to_double_exact [OF step] by (simp add: add.assoc)
qed

lemma filter_magnitude:
  "sum_list (map (\<lambda>r. \<bar>g r :: int\<bar>) (filter P rs)) \<le> sum_list (map (\<lambda>r. \<bar>g r\<bar>) rs)"
  by (induction rs) auto

lemma unrounded_filter: "unrounded rs \<Longrightarrow> unrounded (filter P rs)"
  using filter_magnitude [of "\<lambda>r. integer_of (impactValue r)" P rs]
  by (auto simp: unrounded_def list_all_iff)

lemma sumEmissions_exact:
  assumes "unrounded rs"
  shows "sumEmissions rs = Num (sum_list (map (\<lambda>r. integer_of (impactValue r)) rs))"
proof -
  from assms have "list_all integral (map impactValue rs)"
    by (simp add: unrounded_def list_all_iff)
  moreover from assms
  have "\<bar>0\<bar> + sum_list (map (\<lambda>v. \<bar>integer_of v\<bar>) (map impactValue rs)) \<le> 2 ^ 53"
    by (simp add: unrounded_def comp_def)
  ultimately show ?thesis
    using foldl_exact [of "map impactValue rs" 0]
    by (simp add: sumEmissions_def zero_jsnum_def comp_def)
qed

lemma bucket_sums_exact:
  assumes "unrounded rs"
  shows "reduceSum (map (\<lambda>e. sumEmissions (snd e)) (Object_entries (groupBy rs f)))
     = Num (sum_list (map (\<lambda>r. integer_of (impactValue r)) rs))"
proof -
  let ?E = "Object_entries (groupBy rs f)"
  let ?i = "\<lambda>r. integer_of (impactValue r)"
  let ?m = "\<lambda>r. \<bar>integer_of (impactValue r)\<bar>"
  have bucket: "snd e = filter (\<lambda>x. f x = fst e) rs" if "e \<in> set ?E" for e
    using that groupBy_entry [of "fst e" "snd e" rs f] by (simp add: set_Object_entries)
  have vals: "map (\<lambda>e. sumEmissions (snd e)) ?E = map (\<lambda>e. Num (sum_list (map ?i (snd e)))) ?E"
    using bucket unrounded_filter [OF assms] by (simp add: sumEmissions_exact)
  have abs_le: "\<bar>sum_list (map ?i xs)\<bar> \<le> sum_list (map ?m xs)" for xs
    using sum_list_abs [of "map ?i xs"] by (simp add: comp_def)
  have "sum_list (map (\<lambda>e. \<bar>sum_list (map ?i (snd e))\<bar>) ?E)
      \<le> sum_list (map (\<lambda>e. sum_list (map ?m (snd e))) ?E)"
    by (rule sum_list_mono) (rule abs_le)
  also have "\<dots> = sum_list (map ?m rs)"
    by (simp add: Object_entries_sum groupBy_sum)
  also from assms have "\<dots> \<le> 2 ^ 53"
    by (simp add: unrounded_def)
  finally have bound: "\<bar>0\<bar> + sum_list (map (\<lambda>v. \<bar>integer_of v\<bar>)
      (map (\<lambda>e. Num (sum_list (map ?i (snd e)))) ?E)) \<le> 2 ^ 53"
    by (simp add: comp_def)
  have "list_all integral (map (\<lambda>e. Num (sum_list (map ?i (snd e)))) ?E)"
    by (simp add: list_all_iff)
  from foldl_exact [OF this bound]
  have "reduceSum (map (\<lambda>e. Num (sum_list (map ?i (snd e)))) ?E)
      = Num (sum_list (map (\<lambda>e. sum_list (map ?i (snd e))) ?E))"
    by (simp add: reduceSum_def zero_jsnum_def comp_def)
  also have "sum_list (map (\<lambda>e. sum_list (map ?i (snd e))) ?E) = sum_list (map ?i rs)"
    by (simp add: Object_entries_sum groupBy_sum)
  finally show ?thesis by (simp add: vals)
qed

lemma totalValue_unrounded:
  assumes "unrounded rs"
  shows "totalValue (aggregateImpacts rs) = Num (sum_list (map (\<lambda>r. integer_of (impactValue r)) rs))"
  unfolding totalValue_reduceSum scopeValues by (rule bucket_sums_exact [OF assms])

lemma categorySum_unrounded:
  assumes "unrounded rs" and "e \<in> set (emissionsByScope (aggregateImpacts rs))"
  shows "scopeValue e = categorySum e"
proof -
  from scope_entry [OF assms(2)] obtain vs
    where vs: "scopeValue e = sumEmissions vs" "categoryBreakdown e = getEmissionsByCategory vs"
      "vs = filter (\<lambda>x. scopeKey x = scope e) rs"
    by blast
  from vs(3) have u: "unrounded vs"
    using unrounded_filter [OF assms(1)] by simp
  have "map categoryValue (getEmissionsByCategory vs)
      = map (\<lambda>e. sumEmissions (snd e)) (Object_entries (groupBy vs categoryKey))"
    by (simp add: getEmissionsByCategory_def categoryValue_def split_def)
  then have "categorySum e = Num (sum_list (map (\<lambda>r. integer_of (impactValue r)) vs))"
    using bucket_sums_exact [OF u, of categoryKey] by (simp add: categorySum_def vs(2))
  then show ?thesis
    by (simp add: vs(1) sumEmissions_exact [OF u])
qed

lemma unrounded_permutation:
  assumes "mset us = mset vs" and "unrounded us"
  shows "unrounded vs
     \<and> sum_list (map (\<lambda>r. integer_of (impactValue r)) us)
         = sum_list (map (\<lambda>r. integer_of (impactValue r)) vs)"
proof -
  have sums: "sum_list (map g us) = sum_list (map g vs)" for g :: "jsnum CalculatedImpact \<Rightarrow> int"
    using assms(1) by (metis mset_map sum_mset_sum_list)
  have "set us = set vs"
    using assms(1) by (rule mset_eq_setD)
  with assms(2) sums [of "\<lambda>r. \<bar>integer_of (impactValue r)\<bar>"] have "unrounded vs"
    by (simp add: unrounded_def list_all_iff)
  with sums show ?thesis by simp
qed

section \<open>Properties of the aggregation\<close>

text \<open>
  C8. Applied to the empty list of emission records, the aggregation returns a summary
  whose \<open>totalEmissions.value\<close> is 0 and whose list of scope entries is empty.
\<close>

theorem aggregateImpacts_empty:
  "totalValue (aggregateImpacts ([] :: ('n::{plus,zero}) CalculatedImpact list)) = 0
   \<and> emissionsByScope (aggregateImpacts ([] :: 'n CalculatedImpact list)) = []"
  by (simp add: aggregateImpacts_def totalValue_def groupBy_def Object_entries_def)

text \<open>
  C4, as stated, fails for doubles. Three records of scope \<open>Scope 1\<close> with the values
  \<open>2^53\<close> (category c1), \<open>1\<close> (category c2) and \<open>- 2^53\<close> (category c1): the scope sum is
  \<open>((0 + 2^53) + 1) - 2^53 = 0\<close>, because \<open>2^53 + 1\<close> rounds to \<open>2^53\<close>, while the
  category values are 0 and 1, whose sum is 1 in either order.
\<close>

theorem aggregateImpacts_decomposition_rounding_counterexample:
  "map scopeValue (emissionsByScope (aggregateImpacts
      [impact ''Scope 1'' ''c1'' (Num big), impact ''Scope 1'' ''c2'' (Num 1),
       impact ''Scope 1'' ''c1'' (Num (- big))])) = [Num 0]
   \<and> map categorySum (emissionsByScope (aggregateImpacts
      [impact ''Scope 1'' ''c1'' (Num big), impact ''Scope 1'' ''c2'' (Num 1),
       impact ''Scope 1'' ''c1'' (Num (- big))])) = [Num 1]"
  by (simp add: aggregate_eval double_arith scopeValue_def categorySum_def categoryValue_def reduceSum_def)

text \<open>
  C4, amended. For every input list, \<open>totalEmissions.value\<close> is the left-to-right sum,
  from 0, of \<open>scope.emission.value\<close> over all scope entries. For every scope entry,
  \<open>scope.emission.value\<close> equals the sum of \<open>category.emission.value\<close> over the entry's
  \<open>categoryBreakdown\<close> whenever no addition is rounded: for a number type whose addition
  is associative and commutative with neutral element 0, and for doubles holding
  integers whose magnitudes add up to at most \<open>2^53\<close>.
\<close>

theorem aggregateImpacts_decomposition_unrounded:
  fixes zs :: "('m::{plus,zero}) CalculatedImpact list"
    and rs :: "('n::comm_monoid_add) CalculatedImpact list"
    and ds :: "jsnum CalculatedImpact list"
  shows "totalValue (aggregateImpacts zs)
           = reduceSum (map scopeValue (emissionsByScope (aggregateImpacts zs)))
     \<and> (\<forall>e\<in>set (emissionsByScope (aggregateImpacts rs)). scopeValue e = categorySum e)
     \<and> (unrounded ds
          \<longrightarrow> (\<forall>e\<in>set (emissionsByScope (aggregateImpacts ds)). scopeValue e = categorySum e))"
proof (intro conjI impI ballI)
  show "totalValue (aggregateImpacts zs)
         = reduceSum (map scopeValue (emissionsByScope (aggregateImpacts zs)))"
    by (rule totalValue_reduceSum)
next
  fix e assume "e \<in> set (emissionsByScope (aggregateImpacts rs))"
  from scope_entry [OF this] show "scopeValue e = categorySum e"
    by (auto simp: categorySum_def categoryBreakdown_sum)
next
  fix e assume "unrounded ds" and "e \<in> set (emissionsByScope (aggregateImpacts ds))"
  then show "scopeValue e = categorySum e"
    by (rule categorySum_unrounded)
qed

text \<open>
  C6, as stated, fails for doubles. The values \<open>2^53, 1, - 2^53\<close> in this order give the
  total 0; in the order \<open>2^53, - 2^53, 1\<close> they give the total 1.
\<close>

theorem aggregateImpacts_total_permutation_rounding_counterexample:
  "mset [impact ''Scope 1'' ''c1'' (Num big), impact ''Scope 1'' ''c1'' (Num 1),
         impact ''Scope 1'' ''c1'' (Num (- big))]
     = mset [impact ''Scope 1'' ''c1'' (Num big), impact ''Scope 1'' ''c1'' (Num (- big)),
             impact ''Scope 1'' ''c1'' (Num 1)]
   \<and> totalValue (aggregateImpacts
        [impact ''Scope 1'' ''c1'' (Num big), impact ''Scope 1'' ''c1'' (Num 1),
         impact ''Scope 1'' ''c1'' (Num (- big))]) = Num 0
   \<and> totalValue (aggregateImpacts
        [impact ''Scope 1'' ''c1'' (Num big), impact ''Scope 1'' ''c1'' (Num (- big)),
         impact ''Scope 1'' ''c1'' (Num 1)]) = Num 1"
  by (simp add: aggregate_eval double_arith totalValue_def)

text \<open>
  C6, amended. For every input list and every permutation of it, the
  \<open>totalEmissions.value\<close> of the two summaries are equal whenever no addition is
  rounded: for a number type whose addition is associative and commutative with neutral
  element 0, and for doubles holding integers whose magnitudes add up to at most \<open>2^53\<close>.
\<close>

theorem aggregateImpacts_total_permutation_unrounded:
  fixes xs ys :: "('n::comm_monoid_add) CalculatedImpact list"
    and us vs :: "jsnum CalculatedImpact list"
  shows "(mset xs = mset ys
          \<longrightarrow> totalValue (aggregateImpacts xs) = totalValue (aggregateImpacts ys))
     \<and> (mset us = mset vs \<and> unrounded us
          \<longrightarrow> totalValue (aggregateImpacts us) = totalValue (aggregateImpacts vs))"
proof (intro conjI impI)
  assume perm: "mset xs = mset ys"
  have "sum_list (map impactValue xs) = sum_mset (image_mset impactValue (mset xs))"
    by (metis mset_map sum_mset_sum_list)
  also have "\<dots> = sum_mset (image_mset impactValue (mset ys))"
    by (simp add: perm)
  also have "\<dots> = sum_list (map impactValue ys)"
    by (metis mset_map sum_mset_sum_list)
  finally show "totalValue (aggregateImpacts xs) = totalValue (aggregateImpacts ys)"
    by (simp add: totalValue_exact)
next
  assume "mset us = mset vs \<and> unrounded us"
  then have "unrounded us" and "unrounded vs"
    and "sum_list (map (\<lambda>r. integer_of (impactValue r)) us)
       = sum_list (map (\<lambda>r. integer_of (impactValue r)) vs)"
    using unrounded_permutation [of us vs] by simp_all
  then show "totalValue (aggregateImpacts us) = totalValue (aggregateImpacts vs)"
    by (simp add: totalValue_unrounded)
qed


section \<open>Worked examples\<close>

text \<open>
  The example of the specification, with integers and with doubles: scope sums 30 and
  5, category sums 30 and 5, total 35.
\<close>

theorem aggregateImpacts_decomposition_unrounded_witness:
  "map categorySum (emissionsByScope (aggregateImpacts
      [impact ''Scope 1'' ''c1'' (10::int), impact ''Scope 1'' ''c2'' 20, impact ''Scope 2'' ''c3'' 5]))
     = [30, 5]
   \<and> totalValue (aggregateImpacts
      [impact ''Scope 1'' ''c1'' (10::int), impact ''Scope 1'' ''c2'' 20, impact ''Scope 2'' ''c3'' 5])
     = 35
   \<and> unrounded
      [impact ''Scope 1'' ''c1'' (Num 10), impact ''Scope 1'' ''c2'' (Num 20),
       impact ''Scope 2'' ''c3'' (Num 5)]
   \<and> map categorySum (emissionsByScope (aggregateImpacts
      [impact ''Scope 1'' ''c1'' (Num 10), impact ''Scope 1'' ''c2'' (Num 20),
       impact ''Scope 2'' ''c3'' (Num 5)]))
     = [Num 30, Num 5]"
proof -
  let ?rs = "[impact ''Scope 1'' ''c1'' (10::int), impact ''Scope 1'' ''c2'' 20, impact ''Scope 2'' ''c3'' 5]"
  let ?ds = "[impact ''Scope 1'' ''c1'' (Num 10), impact ''Scope 1'' ''c2'' (Num 20),
       impact ''Scope 2'' ''c3'' (Num 5)]"
  note inst = aggregateImpacts_decomposition_unrounded [of ?rs ?rs ?ds]
  have scopes: "map scopeValue (emissionsByScope (aggregateImpacts ?rs)) = [30, 5]"
    by (simp add: aggregate_eval scopeValue_def)
  have "map categorySum (emissionsByScope (aggregateImpacts ?rs))
      = map scopeValue (emissionsByScope (aggregateImpacts ?rs))"
    using inst by simp
  then have 1: "map categorySum (emissionsByScope (aggregateImpacts ?rs)) = [30, 5]"
    using scopes by simp
  have 2: "totalValue (aggregateImpacts ?rs) = 35"
    using inst scopes by (simp add: reduceSum_def)
  have 3: "unrounded ?ds"
    by (simp add: unrounded_def impactValue_def impact_def)
  have dscopes: "map scopeValue (emissionsByScope (aggregateImpacts ?ds)) = [Num 30, Num 5]"
    by (simp add: aggregate_eval double_arith scopeValue_def)
  have "map categorySum (emissionsByScope (aggregateImpacts ?ds))
      = map scopeValue (emissionsByScope (aggregateImpacts ?ds))"
    using inst 3 by simp
  then have 4: "map categorySum (emissionsByScope (aggregateImpacts ?ds)) = [Num 30, Num 5]"
    using dscopes by simp
  from 1 2 3 4 show ?thesis by blast
qed

text \<open>
  The same three records, rotated.
\<close>

theorem aggregateImpacts_total_permutation_unrounded_witness:
  "mset [impact ''Scope 1'' ''c1'' (10::int), impact ''Scope 1'' ''c2'' 20, impact ''Scope 2'' ''c3'' 5]
     = mset [impact ''Scope 2'' ''c3'' 5, impact ''Scope 1'' ''c1'' (10::int), impact ''Scope 1'' ''c2'' 20]
   \<and> totalValue (aggregateImpacts
        [impact ''Scope 1'' ''c1'' (10::int), impact ''Scope 1'' ''c2'' 20, impact ''Scope 2'' ''c3'' 5])
     = totalValue (aggregateImpacts
        [impact ''Scope 2'' ''c3'' 5, impact ''Scope 1'' ''c1'' (10::int), impact ''Scope 1'' ''c2'' 20])
   \<and> mset [impact ''Scope 1'' ''c1'' (Num 10), impact ''Scope 1'' ''c2'' (Num 20),
            impact ''Scope 2'' ''c3'' (Num 5)]
     = mset [impact ''Scope 2'' ''c3'' (Num 5), impact ''Scope 1'' ''c1'' (Num 10),
             impact ''Scope 1'' ''c2'' (Num 20)]
   \<and> unrounded [impact ''Scope 1'' ''c1'' (Num 10), impact ''Scope 1'' ''c2'' (Num 20),
                 impact ''Scope 2'' ''c3'' (Num 5)]
   \<and> totalValue (aggregateImpacts
        [impact ''Scope 1'' ''c1'' (Num 10), impact ''Scope 1'' ''c2'' (Num 20),
         impact ''Scope 2'' ''c3'' (Num 5)])
     = totalValue (aggregateImpacts
        [impact ''Scope 2'' ''c3'' (Num 5), impact ''Scope 1'' ''c1'' (Num 10),
         impact ''Scope 1'' ''c2'' (Num 20)])"
proof -
  let ?xs = "[impact ''Scope 1'' ''c1'' (10::int), impact ''Scope 1'' ''c2'' 20, impact ''Scope 2'' ''c3'' 5]"
  let ?ys = "[impact ''Scope 2'' ''c3'' 5, impact ''Scope 1'' ''c1'' (10::int), impact ''Scope 1'' ''c2'' 20]"
  let ?us = "[impact ''Scope 1'' ''c1'' (Num 10), impact ''Scope 1'' ''c2'' (Num 20),
              impact ''Scope 2'' ''c3'' (Num 5)]"
  let ?vs = "[impact ''Scope 2'' ''c3'' (Num 5), impact ''Scope 1'' ''c1'' (Num 10),
              impact ''Scope 1'' ''c2'' (Num 20)]"
  have perm: "mset ?xs = mset ?ys"
    by simp
  have dperm: "mset ?us = mset ?vs"
    by simp
  have exact: "unrounded ?us"
    by (simp add: unrounded_def impactValue_def impact_def)
  from aggregateImpacts_total_permutation_unrounded [of ?xs ?ys ?us ?vs] perm dperm exact
  show ?thesis by blast
qed


end
